theory Spec2Isabelle
  imports Main "HOL-Library.Word" "HOL-Library.Char_ord" "HOL-Library.List_Lexorder"
    "HOL-Library.AList"
begin

section \<open>The meshage node: data model\<close>

text \<open>
  The embedding follows \<^verbatim>\<open>src/meshage/node.go\<close>. Go strings are byte strings compared
  bytewise, which is the lexicographic order on \<^typ>\<open>string\<close> given by the library
  orders on characters and lists; \<^verbatim>\<open>sort.Strings\<close> is \<^const>\<open>sort\<close> at that order.

  A \<^verbatim>\<open>map[string][]string\<close> that is passed around as a value (the argument of
  \<^verbatim>\<open>union\<close> and \<^verbatim>\<open>intersect\<close>, the body of a message) is an association list: Go
  visits the entries of a map once each in an order it leaves open, and a statement
  proved for every list covers every such order. Where the node builds such a map itself
  and then ranges over it (the retraction in \<^verbatim>\<open>union\<close>), the order of the visit is an
  argument \<open>visit\<close> of the call: it stands for a rearrangement of the entries, and
  what is proved of the call is proved for every function in its place. The maps held
  in the node are looked up, stored into and deleted from, and are partial functions; the
  peer registry, which \<^verbatim>\<open>broadcastSend\<close> ranges over, is an association list.
\<close>

type_synonym adjacency = "(string \<times> string list) list"

text \<open>
  A \<^verbatim>\<open>client\<close> (connection, encoder, decoder, hangup channel) is known by a number,
  one for each connection made.
\<close>

type_synonym client = nat

text \<open>
  Errors are the messages built by \<^verbatim>\<open>fmt.Errorf\<close>. The message of the registry
  mismatch in \<^verbatim>\<open>setSend\<close> prints the registry with \<^verbatim>\<open>%#v\<close>; it keeps the recipients
  and the registry's names instead. \<^verbatim>\<open>EOF\<close> is \<^verbatim>\<open>io.EOF\<close>, and \<^verbatim>\<open>Transport\<close>
  any other error of a socket.
\<close>

datatype error = Errorf string | Mismatch "string list" "string list" | EOF | Transport

record ack =
  Recipient :: string
  Err :: "error option"

text \<open>
  The body of a message is an \<^verbatim>\<open>interface{}\<close>: an adjacency map, an ack, an
  application value, or nothing. \<open>Body_node_mesh\<close> is the node's own mesh in a message
  that the node builds and sends; a message that comes in carries an adjacency map as
  \<open>Body_mesh\<close>.
\<close>

datatype body =
    Body_nil
  | Body_mesh adjacency
  | Body_node_mesh "string \<rightharpoonup> string list"
  | Body_ack ack
  | Body_value nat

definition SET :: int where "SET = 0"
definition BROADCAST :: int where "BROADCAST = 1"
definition UNION :: int where "UNION = 2"
definition INTERSECTION :: int where "INTERSECTION = 3"
definition MESSAGE :: int where "MESSAGE = 4"
definition ACK :: int where "ACK = 5"
definition HANDSHAKE :: int where "HANDSHAKE = 6"
definition HANDSHAKE_SOLICITED :: int where "HANDSHAKE_SOLICITED = 7"

record Message =
  MessageType :: int
  Recipients :: "string list"
  Source :: string
  CurrentRoute :: "string list"
  ID :: "64 word"
  Command :: int
  Body :: body

text \<open>
  What a call does beyond the node's maps is recorded as events, in order: a task
  started with \<^verbatim>\<open>go\<close>, a value sent on a channel, a use of a socket. The error
  stream and the receive stream are read by the host, which is taken to receive what is
  sent there, and the ack channel is buffered: a send on these completes. What the ack
  channel delivers is an argument of \<^verbatim>\<open>setSend\<close>, which receives from it. The hangup
  channel of a session is unbuffered and read by the session's reader alone, inside its
  loop: a send on it completes only while the reader is there.
\<close>

datatype event =
    Go_connectionListener
  | Go_broadcastListener
  | Go_messageHandler
  | Go_checkDegree
  | Go_receiveHandler string
  | Go_sendOne client Message
  | Go_handleMessage Message
  | Go_setSend Message
  | Go_broadcastSend Message
  | Go_ackChan ack
  | To_errors error
  | To_receive Message
  | To_ackChan ack
  | To_hangup client
  | Encode client Message
  | Close client

record node =
  name :: string
  degree :: nat
  mesh :: "string \<rightharpoonup> string list"
  setSequences :: "string \<rightharpoonup> 64 word"
  broadcastSequences :: "string \<rightharpoonup> 64 word"
  routes :: "string \<rightharpoonup> string"
  clients :: "(string \<times> client) list"
  readers_gone :: "client list"
  trace :: "event list"

text \<open>
  \<open>readers_gone\<close> holds the sessions whose reader has taken a signal from the hangup
  channel and left its loop (the \<^verbatim>\<open>break\<close> in \<^verbatim>\<open>receiveHandler\<close>): from then on nothing
  receives from that channel, while the session stays in the registry until the reader has
  got \<^verbatim>\<open>clientLock\<close> and deleted it.
\<close>

text \<open>
  A call returns, or blocks for ever, or panics on a failed type assertion. The last two
  keep the node as it is at that point. A call blocks for ever where it locks a mutex
  that it holds itself (Go's \<^verbatim>\<open>sync.Mutex\<close> is not reentrant), or where it receives
  from a channel on which nothing more arrives.
\<close>

datatype 'a outcome = Returns 'a | Deadlock node | Panic node

datatype lock = clientLock | sequenceLock | meshLock | degreeLock | setLock

text \<open>
  \<^verbatim>\<open>l.Lock()\<close> in a task that holds the mutexes \<open>held\<close>. Calls are taken one at a
  time, so a mutex is free unless the running call holds it. A call that returns has
  released what it took, by \<^verbatim>\<open>Unlock\<close> or by a deferred one.
\<close>

definition acquire :: "lock \<Rightarrow> lock set \<Rightarrow> node \<Rightarrow> lock set outcome" where
  "acquire l held n = (if l \<in> held then Deadlock n else Returns (insert l held))"

text \<open>
  One call after another: the second runs on what the first returned. A call that has
  blocked keeps its mutexes, and a call that needs one of them does not start: so it is
  with \<^verbatim>\<open>union\<close> and \<^verbatim>\<open>intersect\<close>, which take \<^verbatim>\<open>meshLock\<close> first and keep it while
  they run, and with \<^verbatim>\<open>Hangup\<close>, which takes \<^verbatim>\<open>clientLock\<close> first and keeps it.
\<close>

fun and_then :: "'a outcome \<Rightarrow> ('a \<Rightarrow> 'b outcome) \<Rightarrow> 'b outcome" where
  "and_then (Returns x) f = f x"
| "and_then (Deadlock s) f = Deadlock s"
| "and_then (Panic s) f = Panic s"

fun state_of :: "node outcome \<Rightarrow> node" where
  "state_of (Returns n) = n"
| "state_of (Deadlock n) = n"
| "state_of (Panic n) = n"

definition emit :: "event list \<Rightarrow> node \<Rightarrow> node" where
  "emit es n = n\<lparr>trace := trace n @ es\<rparr>"

definition NewNode :: "string \<Rightarrow> nat \<Rightarrow> node" where
  "NewNode nm d =
     \<lparr>name = nm, degree = d, mesh = Map.empty,
      setSequences = [nm \<mapsto> 1], broadcastSequences = [nm \<mapsto> 1],
      routes = Map.empty, clients = [], readers_gone = [],
      trace = [Go_connectionListener, Go_broadcastListener, Go_messageHandler, Go_checkDegree]\<rparr>"

section \<open>The topology engine\<close>

text \<open>Reading a map at an absent key gives the zero value: a nil slice, or 0.\<close>

definition mesh_at :: "node \<Rightarrow> string \<Rightarrow> string list" where
  "mesh_at n k = (case mesh n k of None \<Rightarrow> [] | Some vs \<Rightarrow> vs)"

definition seq_at :: "(string \<rightharpoonup> 64 word) \<Rightarrow> string \<Rightarrow> 64 word" where
  "seq_at s k = (case s k of None \<Rightarrow> 0 | Some i \<Rightarrow> i)"

text \<open>The inner loop of \<^verbatim>\<open>union\<close>: keep an entry unless it repeats the last one kept.\<close>

definition dedup_step :: "string list \<Rightarrow> string \<Rightarrow> string list" where
  "dedup_step nl j =
     (if length nl = 0 then nl @ [j]
      else if last nl \<noteq> j then nl @ [j]
      else nl)"

definition dedup :: "string list \<Rightarrow> string list" where
  "dedup xs = foldl dedup_step [] xs"

definition union_key :: "string \<Rightarrow> string list \<Rightarrow> node \<Rightarrow> node" where
  "union_key k v n = n\<lparr>mesh := (mesh n)(k \<mapsto> dedup (sort (mesh_at n k @ v)))\<rparr>"

fun union_merge :: "adjacency \<Rightarrow> node \<Rightarrow> node" where
  "union_merge [] n = n"
| "union_merge ((k, v) # m) n = union_merge m (union_key k v n)"

text \<open>\<^verbatim>\<open>im[k] = append(im[k], x)\<close> on a map under construction.\<close>

fun append_at :: "string \<Rightarrow> string \<Rightarrow> adjacency \<Rightarrow> adjacency" where
  "append_at k x [] = [(k, [x])]"
| "append_at k x ((k', vs) # im) =
     (if k' = k then (k', vs @ [x]) # im else (k', vs) # append_at k x im)"

definition conflict_step :: "node \<Rightarrow> adjacency \<Rightarrow> string \<Rightarrow> adjacency" where
  "conflict_step n im v =
     (if map_of (clients n) v = None
      then append_at v (name n) (append_at (name n) v im)
      else im)"

definition intersection_mesh :: "node \<Rightarrow> adjacency" where
  "intersection_mesh n = foldl (conflict_step n) [] (mesh_at n (name n))"

text \<open>
  One round of the loop of \<^verbatim>\<open>intersect_locked\<close>, in a task holding \<open>held\<close>. Where a
  key is emptied the round deletes it from the mesh, takes \<^verbatim>\<open>sequenceLock\<close> and deletes
  the key's two sequence entries; the release of the lock is deferred to the return of
  \<^verbatim>\<open>intersect_locked\<close>, so the lock stays held through the rounds that follow.
\<close>

definition intersect_key ::
  "string \<Rightarrow> string list \<Rightarrow> lock set \<times> node \<Rightarrow> (lock set \<times> node) outcome" where
  "intersect_key k v hn =
     (let held = fst hn; n = snd hn;
          nv = filter (\<lambda>x. x \<notin> set v) (mesh_at n k);
          n1 = n\<lparr>mesh := (mesh n)(k \<mapsto> nv)\<rparr>
      in if length nv = 0 then
           (let n2 = n1\<lparr>mesh := (mesh n1)(k := None)\<rparr>
            in and_then (acquire sequenceLock held n2) (\<lambda>held'.
                 Returns (held', n2\<lparr>setSequences := (setSequences n2)(k := None),
                                       broadcastSequences := (broadcastSequences n2)(k := None)\<rparr>)))
         else Returns (held, n1))"

fun intersect_loop :: "adjacency \<Rightarrow> lock set \<times> node \<Rightarrow> node outcome" where
  "intersect_loop [] hn = Returns (snd hn)"
| "intersect_loop ((k, v) # m) hn = and_then (intersect_key k v hn) (intersect_loop m)"

definition intersect_locked :: "lock set \<Rightarrow> adjacency \<Rightarrow> node \<Rightarrow> node outcome" where
  "intersect_locked held m n = intersect_loop m (held, n)"

definition intersect :: "adjacency \<Rightarrow> node \<Rightarrow> node outcome" where
  "intersect m n = and_then (acquire meshLock {} n) (\<lambda>held. intersect_locked held m n)"

definition broadcastID :: "lock set \<Rightarrow> node \<Rightarrow> (64 word \<times> node) outcome" where
  "broadcastID held n =
     and_then (acquire sequenceLock held n) (\<lambda>_.
       let i = seq_at (broadcastSequences n) (name n)
       in Returns (i, n\<lparr>broadcastSequences := (broadcastSequences n)(name n \<mapsto> i + 1)\<rparr>))"

definition setID :: "lock set \<Rightarrow> node \<Rightarrow> (64 word \<times> node) outcome" where
  "setID held n =
     and_then (acquire sequenceLock held n) (\<lambda>_.
       let i = seq_at (setSequences n) (name n)
       in Returns (i, n\<lparr>setSequences := (setSequences n)(name n \<mapsto> i + 1)\<rparr>))"

definition broadcastSend :: "lock set \<Rightarrow> Message \<Rightarrow> node \<Rightarrow> node outcome" where
  "broadcastSend held m n =
     and_then (acquire clientLock held n) (\<lambda>_.
       Returns (emit (map (\<lambda>kc. Go_sendOne (snd kc) m) (clients n)) n))"

text \<open>
  \<^verbatim>\<open>union\<close> takes \<^verbatim>\<open>meshLock\<close> and \<^verbatim>\<open>clientLock\<close> and keeps both until it returns.
  Where the node's own row names a peer that the registry lacks, it retracts the edge and
  announces the retraction with \<^verbatim>\<open>Send\<close>, which for a BROADCAST message is
  \<^verbatim>\<open>broadcastSend\<close>. The retraction is a Go map, built in \<^const>\<open>intersection_mesh\<close>
  as the list of its entries; \<^verbatim>\<open>intersect_locked\<close> ranges over it in the order
  \<open>visit\<close>.
\<close>

definition union :: "(adjacency \<Rightarrow> adjacency) \<Rightarrow> adjacency \<Rightarrow> node \<Rightarrow> node outcome" where
  "union visit m n =
     and_then (acquire meshLock {} n) (\<lambda>held1.
     and_then (acquire clientLock held1 n) (\<lambda>held.
       let n1 = union_merge m n;
           im = intersection_mesh n1
       in if length im \<noteq> 0 then
            and_then (intersect_locked held (visit im) n1) (\<lambda>n2.
            and_then (broadcastID held n2) (\<lambda>(i, n3).
              let u = \<lparr>MessageType = BROADCAST, Recipients = [], Source = name n3,
                       CurrentRoute = [name n3], ID = i, Command = INTERSECTION,
                       Body = Body_mesh im\<rparr>
              in broadcastSend held u n3))
          else Returns n1))"

section \<open>The message router\<close>

definition handleMessage :: "(adjacency \<Rightarrow> adjacency) \<Rightarrow> Message \<Rightarrow> node \<Rightarrow> node outcome" where
  "handleMessage visit m n =
     (if Command m = UNION then
        (case Body m of Body_mesh a \<Rightarrow> union visit a n | _ \<Rightarrow> Panic n)
      else if Command m = INTERSECTION then
        (case Body m of Body_mesh a \<Rightarrow> intersect a n | _ \<Rightarrow> Panic n)
      else if Command m = MESSAGE then Returns (emit [To_receive m] n)
      else if Command m = ACK then
        (case Body m of Body_ack a \<Rightarrow> Returns (emit [To_ackChan a] n) | _ \<Rightarrow> Panic n)
      else Returns (emit [To_errors (Errorf ''handleMessage: invalid message type'')] n))"

text \<open>
  The loop over the recipients of a SET message: a task handling the message for each
  occurrence of the node's own name, and the other names kept in order.
\<close>

fun split_recipients :: "string \<Rightarrow> Message \<Rightarrow> string list \<Rightarrow> event list \<times> string list" where
  "split_recipients self m [] = ([], [])"
| "split_recipients self m (i # rs) =
     (let (es, new_recipients) = split_recipients self m rs
      in if i = self then (Go_handleMessage m # es, new_recipients)
         else (es, i # new_recipients))"

text \<open>One round of the loop of \<^verbatim>\<open>messageHandler\<close>, on the message taken from the pump.\<close>

definition messageHandler :: "(adjacency \<Rightarrow> adjacency) \<Rightarrow> Message \<Rightarrow> node \<Rightarrow> node outcome" where
  "messageHandler visit m n =
     (if MessageType m = SET then
        (if seq_at (setSequences n) (Source m) < ID m then
           and_then (acquire sequenceLock {} n) (\<lambda>_.
             let n1 = n\<lparr>setSequences := (setSequences n)(Source m \<mapsto> ID m)\<rparr>;
                 m1 = m\<lparr>CurrentRoute := CurrentRoute m @ [name n]\<rparr>;
                 (es, new_recipients) = split_recipients (name n) m1 (Recipients m1);
                 m2 = m1\<lparr>Recipients := new_recipients\<rparr>
             in Returns (emit (es @ [Go_setSend m2]) n1))
         else Returns n)
      else if MessageType m = BROADCAST then
        (if seq_at (broadcastSequences n) (Source m) < ID m then
           and_then (acquire sequenceLock {} n) (\<lambda>_.
             let n1 = n\<lparr>broadcastSequences := (broadcastSequences n)(Source m \<mapsto> ID m)\<rparr>;
                 m1 = m\<lparr>CurrentRoute := CurrentRoute m @ [name n]\<rparr>
             in handleMessage visit m1 (emit [Go_broadcastSend m1] n1))
         else Returns n)
      else Returns n)"

section \<open>The send plane\<close>

text \<open>
  \<^verbatim>\<open>updateRoute\<close> is called by \<^verbatim>\<open>setSend\<close> and is not among the source files. It is a
  parameter here: the route table that the refresh for a destination leaves, as a
  function of the node. The first loop of \<^verbatim>\<open>setSend\<close> groups the recipients by next
  hop; for a recipient without a route after the refresh it reports the error and starts
  a task that puts an ack with that error on the ack channel.
\<close>

fun route_recipients ::
  "(string \<Rightarrow> node \<Rightarrow> (string \<rightharpoonup> string)) \<Rightarrow> string list \<Rightarrow> adjacency \<times> node \<Rightarrow> adjacency \<times> node" where
  "route_recipients updateRoute [] sn = sn"
| "route_recipients updateRoute (v # vs) sn =
     (let route_slices = fst sn; n = snd sn
      in case routes n v of
           Some route \<Rightarrow> route_recipients updateRoute vs (append_at route v route_slices, n)
         | None \<Rightarrow>
             (let n1 = n\<lparr>routes := updateRoute v n\<rparr>
              in case routes n1 v of
                   Some route \<Rightarrow>
                     route_recipients updateRoute vs (append_at route v route_slices, n1)
                 | None \<Rightarrow>
                     (let err = Errorf (''no route to host: '' @ v)
                      in route_recipients updateRoute vs
                           (route_slices,
                            emit [To_errors err, Go_ackChan \<lparr>Recipient = v, Err = Some err\<rparr>] n1))))"

fun send_slices :: "Message \<Rightarrow> adjacency \<Rightarrow> node \<Rightarrow> node" where
  "send_slices m [] n = n"
| "send_slices m ((k, v) # route_slices) n =
     send_slices m route_slices
       (case map_of (clients n) k of
          Some c \<Rightarrow> emit [Go_sendOne c (m\<lparr>Recipients := v\<rparr>)] n
        | None \<Rightarrow> emit [To_errors (Mismatch v (map fst (clients n)))] n)"

text \<open>
  The last loop of \<^verbatim>\<open>setSend\<close> receives one ack per round from the ack channel;
  \<open>arrivals\<close> is what arrives on the channel, in order, and the loop blocks where it
  has run out. \<open>ret\<close> is the message of the error built so far.
\<close>

fun await_acks :: "nat \<Rightarrow> ack list \<Rightarrow> string option \<times> node \<Rightarrow> (string option \<times> ack list \<times> node) outcome" where
  "await_acks 0 arrivals rn = Returns (fst rn, arrivals, snd rn)"
| "await_acks (Suc i) [] rn = Deadlock (snd rn)"
| "await_acks (Suc i) (a # arrivals) rn =
     (case Err a of
        None \<Rightarrow> await_acks i arrivals rn
      | Some e \<Rightarrow>
          await_acks i arrivals
            (case fst rn of
               None \<Rightarrow> Some (''failed to send to: '' @ Recipient a)
             | Some ret \<Rightarrow> Some (ret @ '', '' @ Recipient a),
             emit [To_errors e] (snd rn)))"

definition setSend ::
  "(string \<Rightarrow> node \<Rightarrow> (string \<rightharpoonup> string)) \<Rightarrow> ack list \<Rightarrow> Message \<Rightarrow> node
     \<Rightarrow> (error option \<times> ack list \<times> node) outcome" where
  "setSend updateRoute arrivals m n =
     and_then (acquire setLock {} n) (\<lambda>held1.
     and_then (acquire clientLock held1 n) (\<lambda>_.
       let original_recipients = Recipients m;
           (route_slices, n1) = route_recipients updateRoute (Recipients m) ([], n);
           n2 = send_slices m route_slices n1
       in and_then (await_acks (length original_recipients) arrivals (None, n2))
            (\<lambda>(ret, rest, n3). Returns (map_option Errorf ret, rest, n3))))"

section \<open>Handshake and hangup\<close>

text \<open>
  \<^verbatim>\<open>handleConnection\<close> on an accepted connection \<open>c\<close>. \<open>encoded\<close> is the error of
  sending the handshake, if any, and \<open>decoded\<close> the error of reading the reply or the
  reply.
\<close>

definition handleConnection :: "client \<Rightarrow> error option \<Rightarrow> error + Message \<Rightarrow> node \<Rightarrow> node outcome" where
  "handleConnection c encoded decoded n =
     (let command = (if length (clients n) < degree n then HANDSHAKE_SOLICITED else HANDSHAKE);
          hs = \<lparr>MessageType = SET, Recipients = [], Source = name n,
                CurrentRoute = [name n], ID = 0, Command = command,
                Body = Body_node_mesh (mesh n)\<rparr>;
          n1 = emit [Encode c hs] n
      in case encoded of
           Some err \<Rightarrow> Returns (if err \<noteq> EOF then emit [To_errors err] n1 else n1)
         | None \<Rightarrow>
             (case decoded of
                Inl err \<Rightarrow> Returns (if err \<noteq> EOF then emit [To_errors err] n1 else n1)
              | Inr reply \<Rightarrow>
                  and_then (acquire clientLock {} n1) (\<lambda>_.
                    Returns (emit [Go_receiveHandler (Source reply)]
                      (n1\<lparr>clients := AList.update (Source reply) c (clients n1)\<rparr>)))))"

text \<open>
  \<^verbatim>\<open>dial\<close>: \<open>conn\<close> is the error of connecting or the connection, \<open>decoded\<close> the
  error of reading the peer's handshake or the handshake, \<open>encoded\<close> the error of
  sending the reply, if any. The result is the error returned, if any.
\<close>

definition dial ::
  "(adjacency \<Rightarrow> adjacency) \<Rightarrow> error + client \<Rightarrow> error + Message \<Rightarrow> error option \<Rightarrow> bool \<Rightarrow> node
     \<Rightarrow> (error option \<times> node) outcome" where
  "dial visit conn decoded encoded solicited n =
     (case conn of
        Inl err \<Rightarrow> Returns (Some err, n)
      | Inr c \<Rightarrow>
          (case decoded of
             Inl err \<Rightarrow> Returns (Some err, n)
           | Inr hs \<Rightarrow>
               if Source hs = name n then
                 Returns (Some (Errorf ''connecting to myself is not allowed''), emit [Close c] n)
               else if map_of (clients n) (Source hs) \<noteq> None then
                 Returns (Some (Errorf ''already connected''), emit [Close c] n)
               else if Command hs = HANDSHAKE \<and> solicited then
                 Returns (None, emit [Close c] n)
               else
                 (let resp = \<lparr>MessageType = SET, Recipients = [], Source = name n,
                              CurrentRoute = [name n], ID = 0, Command = ACK, Body = Body_nil\<rparr>;
                      n1 = emit [Encode c resp] n
                  in case encoded of
                       Some err \<Rightarrow> Returns (Some err, n1)
                     | None \<Rightarrow>
                         and_then (acquire clientLock {} n1) (\<lambda>_.
                           let n2 = emit [Go_receiveHandler (Source hs)]
                                      (n1\<lparr>clients := AList.update (Source hs) c (clients n1)\<rparr>)
                           in case Body hs of
                                Body_mesh mesh0 \<Rightarrow>
                                  (let mesh1 = append_at (name n2) (Source hs) mesh0;
                                       mesh2 = append_at (Source hs) (name n2) mesh1
                                   in and_then (union visit mesh2 n2) (\<lambda>n3.
                                      and_then (broadcastID {} n3) (\<lambda>(i, n4).
                                        let u = \<lparr>MessageType = BROADCAST, Recipients = [],
                                                 Source = name n4, CurrentRoute = [name n4],
                                                 ID = i, Command = UNION,
                                                 Body = Body_node_mesh (mesh n4)\<rparr>
                                        in and_then (broadcastSend {} u n4) (\<lambda>n5.
                                             Returns (None, n5)))))
                              | _ \<Rightarrow> Panic n2))))"

definition Dial ::
  "(adjacency \<Rightarrow> adjacency) \<Rightarrow> error + client \<Rightarrow> error + Message \<Rightarrow> error option \<Rightarrow> node
     \<Rightarrow> (error option \<times> node) outcome" where
  "Dial visit conn decoded encoded n = dial visit conn decoded encoded False n"

text \<open>
  \<^verbatim>\<open>Hangup\<close> takes \<^verbatim>\<open>clientLock\<close>, keeps it until it returns, and sends on the
  session's hangup channel. The reader that takes the signal leaves its loop; it deletes
  the session from the registry later, in its own task, once it has \<^verbatim>\<open>clientLock\<close>.
  Where the reader has left its loop already, nothing receives and the send blocks, with
  \<^verbatim>\<open>clientLock\<close> held.
\<close>

definition Hangup :: "string \<Rightarrow> node \<Rightarrow> (error option \<times> node) outcome" where
  "Hangup client n =
     and_then (acquire clientLock {} n) (\<lambda>_.
       case map_of (clients n) client of
         None \<Rightarrow> Returns (Some (Errorf ''no such client''), n)
       | Some c \<Rightarrow>
           if c \<in> set (readers_gone n) then Deadlock n
           else Returns (None, emit [To_hangup c] (n\<lparr>readers_gone := c # readers_gone n\<rparr>)))"

section \<open>Properties of the node\<close>

text \<open>Every row of the mesh is in ascending order and free of duplicates.\<close>

definition sorted_rows :: "(string \<rightharpoonup> string list) \<Rightarrow> bool" where
  "sorted_rows M = (\<forall>k vs. M k = Some vs \<longrightarrow> sorted vs \<and> distinct vs)"

definition mesh_sorted :: "node \<Rightarrow> bool" where
  "mesh_sorted n = sorted_rows (mesh n)"

text \<open>
  The nodes that a run can be in, as far as the mesh goes: \<^verbatim>\<open>union\<close> and
  \<^verbatim>\<open>intersect\<close> are the only writers of the mesh, and the node is taken where a call
  ends, returned or not. Everything else the node does leaves the mesh and the name alone.
\<close>

inductive reachable :: "node \<Rightarrow> bool" where
  start: "reachable (NewNode nm d)"
| by_union: "reachable n \<Longrightarrow> reachable (state_of (union visit m n))"
| by_intersect: "reachable n \<Longrightarrow> reachable (state_of (intersect m n))"
| elsewhere: "reachable n \<Longrightarrow> mesh n' = mesh n \<Longrightarrow> name n' = name n \<Longrightarrow> reachable n'"

text \<open>No key of the mesh has an empty row.\<close>

definition no_empty :: "(string \<rightharpoonup> string list) \<Rightarrow> bool" where
  "no_empty M = (\<forall>k. M k \<noteq> Some [])"

definition no_empty_row :: "node \<Rightarrow> bool" where
  "no_empty_row n = no_empty (mesh n)"

text \<open>
  A key is settled when its row is not empty and, if the key is absent, both sequence
  tables lack it too.
\<close>

definition settled :: "node \<Rightarrow> string \<Rightarrow> bool" where
  "settled n k =
     (mesh n k \<noteq> Some [] \<and>
      (mesh n k = None \<longrightarrow> setSequences n k = None \<and> broadcastSequences n k = None))"

text \<open>A call that never returns because it blocks.\<close>

fun blocked :: "'a outcome \<Rightarrow> bool" where
  "blocked (Deadlock s) = True"
| "blocked (Returns x) = False"
| "blocked (Panic s) = False"

text \<open>The node at which a call of \<^verbatim>\<open>setSend\<close> ends.\<close>

fun node_of :: "('a \<times> 'b \<times> node) outcome \<Rightarrow> node" where
  "node_of (Returns r) = snd (snd r)"
| "node_of (Deadlock s) = s"
| "node_of (Panic s) = s"

text \<open>
  The node when the first loop of \<^verbatim>\<open>setSend\<close> has dealt with the recipients \<open>pre\<close>
  and comes to the next one.
\<close>

definition at_turn ::
  "(string \<Rightarrow> node \<Rightarrow> (string \<rightharpoonup> string)) \<Rightarrow> string list \<Rightarrow> node \<Rightarrow> node" where
  "at_turn updateRoute pre n = snd (route_recipients updateRoute pre ([], n))"

text \<open>The ack that \<^verbatim>\<open>setSend\<close> makes up for a recipient without a route.\<close>

definition no_route_ack :: "string \<Rightarrow> ack" where
  "no_route_ack v = \<lparr>Recipient = v, Err = Some (Errorf (''no route to host: '' @ v))\<rparr>"

text \<open>
  The recipients of the acks that carry an error, and the message that names them:
  the first after \<^verbatim>\<open>failed to send to: \<close>, each further one after a comma.
\<close>

definition failed :: "ack list \<Rightarrow> string list" where
  "failed as = map Recipient (filter (\<lambda>a. Err a \<noteq> None) as)"

fun more_names :: "string list \<Rightarrow> string" where
  "more_names [] = []"
| "more_names (r # rs) = '', '' @ r @ more_names rs"

fun composite :: "string list \<Rightarrow> string option" where
  "composite [] = None"
| "composite (r # rs) = Some (''failed to send to: '' @ r @ more_names rs)"

text \<open>
  Auxiliary notions of the proofs: the names a fragment gives for a key, what one round
  of \<^verbatim>\<open>intersect_locked\<close> does to the mesh, the node at which a round ends, and the
  error message of \<^verbatim>\<open>setSend\<close> continued over further names.
\<close>

definition given :: "adjacency \<Rightarrow> string \<Rightarrow> string set" where
  "given m k = set (concat (map snd (filter (\<lambda>e. fst e = k) m)))"

definition cut :: "string \<Rightarrow> string list \<Rightarrow> (string \<rightharpoonup> string list) \<Rightarrow> (string \<rightharpoonup> string list)" where
  "cut k v M =
     (let nv = filter (\<lambda>x. x \<notin> set v) (case M k of None \<Rightarrow> [] | Some vs \<Rightarrow> vs)
      in if nv = [] then M(k := None) else M(k \<mapsto> nv))"

fun ends_at :: "(lock set \<times> node) outcome \<Rightarrow> node" where
  "ends_at (Returns r) = snd r"
| "ends_at (Deadlock s) = s"
| "ends_at (Panic s) = s"

fun extend :: "string option \<Rightarrow> string list \<Rightarrow> string option" where
  "extend ret [] = ret"
| "extend None (r # rs) = extend (Some (''failed to send to: '' @ r)) rs"
| "extend (Some s) (r # rs) = extend (Some (s @ '', '' @ r)) rs"

section \<open>Locks\<close>

lemma acquire_free [simp]: "l \<notin> held \<Longrightarrow> acquire l held n = Returns (insert l held)"
  by (simp add: acquire_def)

lemma acquire_held [simp]: "l \<in> held \<Longrightarrow> acquire l held n = Deadlock n"
  by (simp add: acquire_def)

lemma blocked_and_then: "blocked r \<Longrightarrow> blocked (and_then r f)"
  by (cases r) auto

section \<open>The merge of \<^verbatim>\<open>union\<close>\<close>

text \<open>The inner loop is \<^const>\<open>remdups_adj\<close>; on a sorted list it leaves the sorted list
  of the set.\<close>

lemma dedup_step_remdups_adj: "dedup_step (remdups_adj ys) x = remdups_adj (ys @ [x])"
  by (cases "ys = []") (auto simp: dedup_step_def remdups_adj_append'')

lemma foldl_dedup: "foldl dedup_step (remdups_adj ys) xs = remdups_adj (ys @ xs)"
proof (induction xs arbitrary: ys)
  case Nil
  then show ?case by simp
next
  case (Cons x xs)
  have "foldl dedup_step (remdups_adj ys) (x # xs) = foldl dedup_step (remdups_adj (ys @ [x])) xs"
    by (simp add: dedup_step_remdups_adj)
  also have "\<dots> = remdups_adj ((ys @ [x]) @ xs)"
    by (rule Cons.IH)
  finally show ?case by simp
qed

lemma dedup_remdups_adj: "dedup xs = remdups_adj xs"
  using foldl_dedup [of "[]" xs] by (simp add: dedup_def)

lemma distinct_remdups_adj_sorted: "sorted xs \<Longrightarrow> distinct (remdups_adj (xs::'a::linorder list))"
  by (induction xs rule: remdups_adj.induct) auto

lemma dedup_sort: "dedup (sort xs) = sorted_list_of_set (set xs)"
proof -
  have "sorted (remdups_adj (sort xs))" by simp
  moreover have "distinct (remdups_adj (sort xs))"
    by (simp add: distinct_remdups_adj_sorted)
  moreover have "set (remdups_adj (sort xs)) = set xs" by simp
  ultimately show ?thesis
    unfolding dedup_remdups_adj
    by (metis sorted_list_of_set.idem_if_sorted_distinct)
qed

lemma union_key_fields [simp]:
  "name (union_key k v n) = name n" "clients (union_key k v n) = clients n"
  "setSequences (union_key k v n) = setSequences n"
  "broadcastSequences (union_key k v n) = broadcastSequences n"
  "routes (union_key k v n) = routes n" "trace (union_key k v n) = trace n"
  "degree (union_key k v n) = degree n" "readers_gone (union_key k v n) = readers_gone n"
  by (simp_all add: union_key_def)

lemma union_merge_fields [simp]:
  "name (union_merge m n) = name n" "clients (union_merge m n) = clients n"
  "setSequences (union_merge m n) = setSequences n"
  "broadcastSequences (union_merge m n) = broadcastSequences n"
  "routes (union_merge m n) = routes n" "trace (union_merge m n) = trace n"
  "degree (union_merge m n) = degree n" "readers_gone (union_merge m n) = readers_gone n"
  by (induction m n rule: union_merge.induct; simp)+

lemma mesh_union_key:
  "mesh (union_key k v n) k' =
     (if k' = k then Some (sorted_list_of_set (set (mesh_at n k) \<union> set v)) else mesh n k')"
  by (simp add: union_key_def dedup_sort)

lemma mesh_at_union_key:
  "mesh_at (union_key k v n) k' =
     (if k' = k then sorted_list_of_set (set (mesh_at n k) \<union> set v) else mesh_at n k')"
  by (simp add: mesh_at_def mesh_union_key)

lemma given_Nil [simp]: "given [] k = {}"
  by (simp add: given_def)

lemma given_Cons [simp]:
  "given ((k', v) # m) k = (if k' = k then set v \<union> given m k else given m k)"
  by (simp add: given_def)

lemma given_absent: "k \<notin> fst ` set m \<Longrightarrow> given m k = {}"
  by (induction m) auto

lemma finite_given [simp]: "finite (given m k)"
  by (simp add: given_def)

lemma mesh_union_merge:
  "mesh (union_merge m n) k =
     (if k \<in> fst ` set m then Some (sorted_list_of_set (set (mesh_at n k) \<union> given m k))
      else mesh n k)"
proof (induction m n rule: union_merge.induct)
  case (1 n)
  then show ?case by simp
next
  case (2 k' v m n)
  show ?case
    by (simp add: 2 mesh_union_key mesh_at_union_key Un_assoc given_absent)
qed

lemma mesh_at_union_merge:
  "mesh_at (union_merge m n) k =
     (if k \<in> fst ` set m then sorted_list_of_set (set (mesh_at n k) \<union> given m k)
      else mesh_at n k)"
  by (simp add: mesh_at_def mesh_union_merge)

lemma union_merge_idem: "union_merge m (union_merge m n) = union_merge m n"
proof -
  have "mesh (union_merge m (union_merge m n)) = mesh (union_merge m n)"
    by (rule ext) (simp add: mesh_union_merge mesh_at_union_merge Un_assoc)
  then show ?thesis
    by (simp add: node.equality)
qed

lemma sorted_rows_union_merge: "sorted_rows (mesh n) \<Longrightarrow> sorted_rows (mesh (union_merge m n))"
  by (auto simp: sorted_rows_def mesh_union_merge split: if_splits)

lemma no_empty_union_merge:
  "no_empty (mesh n) \<Longrightarrow> \<forall>e\<in>set m. snd e \<noteq> [] \<Longrightarrow> no_empty (mesh (union_merge m n))"
proof (induction m n rule: union_merge.induct)
  case (1 n)
  then show ?case by simp
next
  case (2 k v m n)
  have "no_empty (mesh (union_key k v n))"
    using "2.prems" by (auto simp: no_empty_def mesh_union_key)
  with 2 show ?case by simp
qed

section \<open>The rounds of \<^verbatim>\<open>intersect_locked\<close>\<close>

lemma intersect_key_mesh: "mesh (ends_at (intersect_key k v hn)) = cut k v (mesh (snd hn))"
  by (simp add: intersect_key_def Let_def acquire_def cut_def mesh_at_def)

lemma intersect_key_Returns:
  "intersect_key k v hn = Returns r \<Longrightarrow>
     mesh (snd r) = cut k v (mesh (snd hn)) \<and>
     (cut k v (mesh (snd hn)) k = None \<longrightarrow>
        setSequences (snd r) = (setSequences (snd hn))(k := None) \<and>
        broadcastSequences (snd r) = (broadcastSequences (snd hn))(k := None)) \<and>
     (cut k v (mesh (snd hn)) k \<noteq> None \<longrightarrow>
        setSequences (snd r) = setSequences (snd hn) \<and>
        broadcastSequences (snd r) = broadcastSequences (snd hn))"
  by (auto simp: intersect_key_def Let_def acquire_def cut_def mesh_at_def
        split: if_splits option.splits)

lemma cut_other: "k' \<noteq> k \<Longrightarrow> cut k v M k' = M k'"
  by (simp add: cut_def Let_def)

lemma cut_nonempty: "cut k v M k \<noteq> Some []"
  by (simp add: cut_def Let_def)

lemma cut_absent: "M k' = None \<Longrightarrow> cut k v M k' = None"
  by (cases "k' = k") (simp_all add: cut_def Let_def)

lemma sorted_rows_cut: "sorted_rows M \<Longrightarrow> sorted_rows (cut k v M)"
  by (auto simp: sorted_rows_def cut_def Let_def sorted_wrt_filter split: option.splits if_splits)

lemma no_empty_cut: "no_empty M \<Longrightarrow> no_empty (cut k v M)"
  by (simp add: no_empty_def cut_def Let_def)

text \<open>A property of the mesh that every round keeps holds where the loop ends.\<close>

lemma intersect_loop_keeps:
  assumes keep: "\<And>k v M. P M \<Longrightarrow> P (cut k v M)"
  shows "P (mesh (snd hn)) \<Longrightarrow> P (mesh (state_of (intersect_loop m hn)))"
proof (induction m arbitrary: hn)
  case Nil
  then show ?case by simp
next
  case (Cons e m)
  obtain k v where e: "e = (k, v)" by (cases e)
  have step: "P (mesh (ends_at (intersect_key k v hn)))"
    using Cons.prems by (simp add: intersect_key_mesh keep)
  show ?case
  proof (cases "intersect_key k v hn")
    case (Returns r)
    with step Cons.IH [of r] e show ?thesis by simp
  next
    case (Deadlock s)
    with step e show ?thesis by simp
  next
    case (Panic s)
    with step e show ?thesis by simp
  qed
qed

lemma intersect_key_settled:
  "intersect_key k v hn = Returns r \<Longrightarrow> settled (snd r) k"
  by (drule intersect_key_Returns) (auto simp: settled_def cut_nonempty)

lemma intersect_key_settled_other:
  "intersect_key k v hn = Returns r \<Longrightarrow> settled (snd hn) k' \<Longrightarrow> k' \<noteq> k \<Longrightarrow> settled (snd r) k'"
  by (drule intersect_key_Returns) (auto simp: settled_def cut_other)

lemma intersect_loop_settled_kept:
  "intersect_loop m hn = Returns n' \<Longrightarrow> settled (snd hn) k \<Longrightarrow> settled n' k"
proof (induction m arbitrary: hn)
  case Nil
  then show ?case by simp
next
  case (Cons e m)
  obtain k' v where e: "e = (k', v)" by (cases e)
  from Cons.prems(1) e obtain r where r: "intersect_key k' v hn = Returns r"
    and rest: "intersect_loop m r = Returns n'"
    by (cases "intersect_key k' v hn") auto
  have "settled (snd r) k"
  proof (cases "k = k'")
    case True
    with r show ?thesis by (simp add: intersect_key_settled)
  next
    case False
    with r Cons.prems(2) show ?thesis by (simp add: intersect_key_settled_other)
  qed
  with rest show ?case by (rule Cons.IH)
qed

lemma intersect_loop_settled:
  "intersect_loop m hn = Returns n' \<Longrightarrow> k \<in> fst ` set m \<Longrightarrow> settled n' k"
proof (induction m arbitrary: hn)
  case Nil
  then show ?case by simp
next
  case (Cons e m)
  obtain k' v where e: "e = (k', v)" by (cases e)
  from Cons.prems(1) e obtain r where r: "intersect_key k' v hn = Returns r"
    and rest: "intersect_loop m r = Returns n'"
    by (cases "intersect_key k' v hn") auto
  show ?case
  proof (cases "k = k'")
    case True
    with r have "settled (snd r) k" by (simp add: intersect_key_settled)
    with rest show ?thesis by (rule intersect_loop_settled_kept)
  next
    case False
    with Cons.prems(2) e have "k \<in> fst ` set m" by auto
    with rest show ?thesis by (rule Cons.IH)
  qed
qed

section \<open>\<^verbatim>\<open>union\<close> as a whole\<close>

text \<open>
  With a conflict, \<^verbatim>\<open>union\<close> never returns: it still holds \<^verbatim>\<open>clientLock\<close> when the
  announcement reaches \<^verbatim>\<open>broadcastSend\<close>, if the retraction has not blocked before.
\<close>

lemma union_unfold:
  "union visit m n =
     (let n1 = union_merge m n; im = intersection_mesh n1
      in if im = [] then Returns n1
         else (case intersect_locked {clientLock, meshLock} (visit im) n1 of
                 Returns n2 \<Rightarrow>
                   Deadlock (n2\<lparr>broadcastSequences :=
                     (broadcastSequences n2)(name n2 \<mapsto> seq_at (broadcastSequences n2) (name n2) + 1)\<rparr>)
               | Deadlock s \<Rightarrow> Deadlock s
               | Panic s \<Rightarrow> Panic s))"
  by (simp add: union_def Let_def broadcastID_def broadcastSend_def split: outcome.splits)

lemma union_mesh:
  "mesh (state_of (union visit m n)) =
     (if intersection_mesh (union_merge m n) = [] then mesh (union_merge m n)
      else mesh (state_of (intersect_locked {clientLock, meshLock}
                   (visit (intersection_mesh (union_merge m n))) (union_merge m n))))"
  by (simp add: union_unfold Let_def split: outcome.splits)

lemma union_Returns:
  "union visit m n = Returns n1 \<Longrightarrow> n1 = union_merge m n \<and> intersection_mesh n1 = []"
  by (auto simp: union_unfold Let_def split: if_splits outcome.splits)

lemma intersect_key_no_panic: "intersect_key k v hn \<noteq> Panic s"
  by (simp add: intersect_key_def Let_def acquire_def)

lemma intersect_loop_no_panic: "intersect_loop m hn \<noteq> Panic s"
proof (induction m arbitrary: hn)
  case Nil
  then show ?case by simp
next
  case (Cons e m)
  obtain k v where e: "e = (k, v)" by (cases e)
  show ?case
    using Cons.IH intersect_key_no_panic [of k v hn s]
    by (cases "intersect_key k v hn") (simp_all add: e)
qed

lemma union_conflict_blocks:
  "intersection_mesh (union_merge m n) \<noteq> [] \<Longrightarrow> blocked (union visit m n)"
  using intersect_loop_no_panic
    [of "visit (intersection_mesh (union_merge m n))" "({clientLock, meshLock}, union_merge m n)"]
  by (simp add: union_unfold Let_def intersect_locked_def split: outcome.splits)

lemma union_sorted: "sorted_rows (mesh n) \<Longrightarrow> sorted_rows (mesh (state_of (union visit m n)))"
  by (simp add: union_mesh intersect_locked_def sorted_rows_union_merge
        intersect_loop_keeps [of sorted_rows, OF sorted_rows_cut])

lemma intersect_sorted: "sorted_rows (mesh n) \<Longrightarrow> sorted_rows (mesh (state_of (intersect m n)))"
  by (simp add: intersect_def intersect_locked_def
        intersect_loop_keeps [of sorted_rows, OF sorted_rows_cut])

lemma reachable_sorted: "reachable n \<Longrightarrow> sorted_rows (mesh n)"
  by (induction rule: reachable.induct)
     (simp_all add: union_sorted intersect_sorted, simp add: NewNode_def sorted_rows_def)


section \<open>The router's split of the recipients\<close>

lemma split_recipients_eq:
  "split_recipients self m rs =
     (map (\<lambda>_. Go_handleMessage m) (filter (\<lambda>i. i = self) rs), filter (\<lambda>i. i \<noteq> self) rs)"
  by (induction rs) auto

section \<open>Sorted rows\<close>

text \<open>
  C1. After every application of \<^verbatim>\<open>union\<close> to any adjacency fragment, every row of the
  node's mesh, for every key, is in ascending order and holds no entry twice. The node is
  any node that a run can be in, and it is taken where the call ends, in whatever order
  the retraction is visited.
\<close>

theorem union_keeps_rows_sorted: "reachable n \<Longrightarrow> mesh_sorted (state_of (union visit m n))"
  unfolding mesh_sorted_def by (rule union_sorted) (rule reachable_sorted)

theorem union_keeps_rows_sorted_witness:
  "reachable ((NewNode ''a'' 1)\<lparr>clients := [(''b'', 1), (''c'', 2)]\<rparr>) \<and>
   mesh_sorted (state_of (union rev [(''a'', [''c'', ''b'', ''c''])]
      ((NewNode ''a'' 1)\<lparr>clients := [(''b'', 1), (''c'', 2)]\<rparr>))) \<and>
   mesh (state_of (union rev [(''a'', [''c'', ''b'', ''c''])]
      ((NewNode ''a'' 1)\<lparr>clients := [(''b'', 1), (''c'', 2)]\<rparr>))) ''a'' = Some [''b'', ''c'']"
proof -
  have r: "reachable ((NewNode ''a'' 1)\<lparr>clients := [(''b'', 1), (''c'', 2)]\<rparr>)"
    by (rule reachable.elsewhere [OF reachable.start [of "''a''" 1]]) simp_all
  show ?thesis
    using r union_keeps_rows_sorted [OF r, of rev "[(''a'', [''c'', ''b'', ''c''])]"]
    by (simp add: union_def acquire_def Let_def union_key_def NewNode_def intersection_mesh_def
          mesh_at_def dedup_def dedup_step_def conflict_step_def)
qed

section \<open>Removal of named edges\<close>

text \<open>
  C2. For every node and every input \<open>{k: [v]}\<close>, \<^verbatim>\<open>intersect\<close> returns, and after it
  \<open>v\<close> is not in the row of \<open>k\<close>, which is the old row without \<open>v\<close>; whenever the
  removal leaves the row empty, \<open>k\<close> is absent from the mesh and from both sequence tables.
\<close>

theorem intersect_removes_named:
  "\<exists>n'. intersect [(k, [v])] n = Returns n' \<and>
        mesh_at n' k = filter (\<lambda>x. x \<noteq> v) (mesh_at n k) \<and>
        v \<notin> set (mesh_at n' k) \<and>
        (filter (\<lambda>x. x \<noteq> v) (mesh_at n k) = [] \<longrightarrow>
           mesh n' k = None \<and> setSequences n' k = None \<and> broadcastSequences n' k = None)"
  by (simp add: intersect_def intersect_locked_def intersect_key_def Let_def mesh_at_def)

theorem intersect_removes_named_witness:
  "filter (\<lambda>x. x \<noteq> ''b'') (mesh_at ((NewNode ''a'' 1)\<lparr>mesh := [''a'' \<mapsto> [''b'']]\<rparr>) ''a'') = [] \<and>
   (\<exists>n'. intersect [(''a'', [''b''])] ((NewNode ''a'' 1)\<lparr>mesh := [''a'' \<mapsto> [''b'']]\<rparr>) = Returns n' \<and>
         mesh n' ''a'' = None \<and> setSequences n' ''a'' = None \<and> broadcastSequences n' ''a'' = None)"
  using intersect_removes_named [of "''a''" "''b''" "(NewNode ''a'' 1)\<lparr>mesh := [''a'' \<mapsto> [''b'']]\<rparr>"]
  by (auto simp: mesh_at_def NewNode_def)

section \<open>Idempotence of \<^verbatim>\<open>union\<close>\<close>

text \<open>
  C3. For every node and every adjacency fragment \<open>m\<close>, applying \<^verbatim>\<open>union\<close> with \<open>m\<close>
  twice in succession gives what applying it once gives: where the first call returns,
  the second returns the same node, mesh and all; where the first call blocks, it keeps
  \<^verbatim>\<open>meshLock\<close> and no second call starts. The two calls may visit their retractions
  in different orders.
\<close>

theorem union_idempotent: "and_then (union visit m n) (union visit' m) = union visit m n"
proof (cases "union visit m n")
  case (Returns n1)
  then have n1: "n1 = union_merge m n" and im: "intersection_mesh n1 = []"
    using union_Returns by blast+
  have "union visit' m (union_merge m n) = Returns (union_merge m n)"
    using im unfolding n1 by (subst union_unfold) (simp add: union_merge_idem)
  with Returns n1 show ?thesis by simp
qed simp_all

section \<open>Stale messages at the router\<close>

text \<open>
  C4. An inbound SET or BROADCAST message whose id is at most the sequence number last
  seen from its source is dropped with no effect: the round returns the node as it was,
  sequence tables, mesh, routes and events alike, so nothing is forwarded and nothing is
  handled locally. A message with a greater id sets the counter of its source to its id
  and is processed: a SET message is handed to a task per occurrence of the node's name
  among the recipients and the others are sent on; a BROADCAST message is sent on and
  handled locally.
\<close>

theorem messageHandler_drops_stale:
  "((MessageType m = SET \<and> ID m \<le> seq_at (setSequences n) (Source m)) \<or>
    (MessageType m = BROADCAST \<and> ID m \<le> seq_at (broadcastSequences n) (Source m))
      \<longrightarrow> messageHandler visit m n = Returns n) \<and>
   (MessageType m = SET \<and> seq_at (setSequences n) (Source m) < ID m \<longrightarrow>
      messageHandler visit m n =
        Returns (emit (map (\<lambda>_. Go_handleMessage (m\<lparr>CurrentRoute := CurrentRoute m @ [name n]\<rparr>))
                        (filter (\<lambda>i. i = name n) (Recipients m)) @
                      [Go_setSend (m\<lparr>CurrentRoute := CurrentRoute m @ [name n],
                                      Recipients := filter (\<lambda>i. i \<noteq> name n) (Recipients m)\<rparr>)])
                 (n\<lparr>setSequences := (setSequences n)(Source m \<mapsto> ID m)\<rparr>))) \<and>
   (MessageType m = BROADCAST \<and> seq_at (broadcastSequences n) (Source m) < ID m \<longrightarrow>
      messageHandler visit m n =
        handleMessage visit (m\<lparr>CurrentRoute := CurrentRoute m @ [name n]\<rparr>)
          (emit [Go_broadcastSend (m\<lparr>CurrentRoute := CurrentRoute m @ [name n]\<rparr>)]
             (n\<lparr>broadcastSequences := (broadcastSequences n)(Source m \<mapsto> ID m)\<rparr>)))"
  by (auto simp: messageHandler_def SET_def BROADCAST_def acquire_def Let_def split_recipients_eq)

theorem messageHandler_drops_stale_witness:
  "MessageType \<lparr>MessageType = SET, Recipients = [''a''], Source = ''b'', CurrentRoute = [''b''],
                ID = 5, Command = MESSAGE, Body = Body_value 0\<rparr> = SET \<and>
   (5 :: 64 word) \<le> seq_at (setSequences ((NewNode ''a'' 1)\<lparr>setSequences := [''a'' \<mapsto> 1, ''b'' \<mapsto> 5]\<rparr>)) ''b'' \<and>
   messageHandler rev \<lparr>MessageType = SET, Recipients = [''a''], Source = ''b'', CurrentRoute = [''b''],
                   ID = 5, Command = MESSAGE, Body = Body_value 0\<rparr>
     ((NewNode ''a'' 1)\<lparr>setSequences := [''a'' \<mapsto> 1, ''b'' \<mapsto> 5]\<rparr>)
   = Returns ((NewNode ''a'' 1)\<lparr>setSequences := [''a'' \<mapsto> 1, ''b'' \<mapsto> 5]\<rparr>) \<and>
   seq_at (setSequences ((NewNode ''a'' 1)\<lparr>setSequences := [''a'' \<mapsto> 1, ''b'' \<mapsto> 5]\<rparr>)) ''b'' < (6 :: 64 word) \<and>
   setSequences (state_of (messageHandler rev
      \<lparr>MessageType = SET, Recipients = [''a''], Source = ''b'', CurrentRoute = [''b''],
       ID = 6, Command = MESSAGE, Body = Body_value 0\<rparr>
      ((NewNode ''a'' 1)\<lparr>setSequences := [''a'' \<mapsto> 1, ''b'' \<mapsto> 5]\<rparr>))) ''b'' = Some 6"
  using messageHandler_drops_stale
    [of "\<lparr>MessageType = SET, Recipients = [''a''], Source = ''b'', CurrentRoute = [''b''],
          ID = 5, Command = MESSAGE, Body = Body_value 0\<rparr>"
        "(NewNode ''a'' 1)\<lparr>setSequences := [''a'' \<mapsto> 1, ''b'' \<mapsto> 5]\<rparr>" rev]
    messageHandler_drops_stale
    [of "\<lparr>MessageType = SET, Recipients = [''a''], Source = ''b'', CurrentRoute = [''b''],
          ID = 6, Command = MESSAGE, Body = Body_value 0\<rparr>"
        "(NewNode ''a'' 1)\<lparr>setSequences := [''a'' \<mapsto> 1, ''b'' \<mapsto> 5]\<rparr>" rev]
  by (simp add: seq_at_def NewNode_def emit_def)

section \<open>Acks of a set send\<close>

lemma extend_Some: "extend (Some s) rs = Some (s @ more_names rs)"
  by (induction rs arbitrary: s) simp_all

lemma extend_None: "extend None rs = composite rs"
  by (cases rs) (simp_all add: extend_Some)

lemma composite_None: "composite rs = None \<longleftrightarrow> rs = []"
  by (cases rs) simp_all

lemma failed_Nil: "failed as = [] \<longleftrightarrow> (\<forall>a\<in>set as. Err a = None)"
  by (simp add: failed_def filter_empty_conv)

lemma await_acks_returns:
  "i \<le> length arrivals \<Longrightarrow>
     \<exists>n'. await_acks i arrivals rn =
            Returns (extend (fst rn) (failed (take i arrivals)), drop i arrivals, n')"
proof (induction i arrivals rn rule: await_acks.induct)
  case (1 arrivals rn)
  then show ?case by (simp add: failed_def)
next
  case (2 i rn)
  then show ?case by simp
next
  case (3 i a arrivals rn)
  show ?case
  proof (cases "Err a")
    case None
    with 3 show ?thesis by (simp add: failed_def)
  next
    case (Some e)
    with 3 show ?thesis
      by (cases "fst rn") (auto simp add: failed_def)
  qed
qed

lemma await_acks_blocks: "length arrivals < i \<Longrightarrow> blocked (await_acks i arrivals rn)"
  by (induction i arrivals rn rule: await_acks.induct) (auto split: option.splits)

lemma await_acks_trace:
  "e \<in> set (trace (snd rn)) \<Longrightarrow> e \<in> set (trace (node_of (await_acks i arrivals rn)))"
  by (induction i arrivals rn rule: await_acks.induct) (auto simp: emit_def split: option.splits)

lemma send_slices_trace:
  "e \<in> set (trace n) \<Longrightarrow> e \<in> set (trace (send_slices m sl n))"
  by (induction m sl n rule: send_slices.induct) (auto simp: emit_def split: option.splits)

lemma route_recipients_trace:
  "e \<in> set (trace (snd sn)) \<Longrightarrow> e \<in> set (trace (snd (route_recipients upd rs sn)))"
  by (induction upd rs sn rule: route_recipients.induct)
     (auto simp: emit_def Let_def split: option.splits)

lemma route_recipients_step:
  "route_recipients upd (v # vs) sn =
     (case routes (snd sn) v of
        Some route \<Rightarrow> route_recipients upd vs (append_at route v (fst sn), snd sn)
      | None \<Rightarrow>
          (case upd v (snd sn) v of
             Some route \<Rightarrow>
               route_recipients upd vs (append_at route v (fst sn), (snd sn)\<lparr>routes := upd v (snd sn)\<rparr>)
           | None \<Rightarrow>
               route_recipients upd vs
                 (fst sn, emit [To_errors (Errorf (''no route to host: '' @ v)), Go_ackChan (no_route_ack v)]
                            ((snd sn)\<lparr>routes := upd v (snd sn)\<rparr>))))"
  by (simp add: Let_def no_route_ack_def split: option.splits)

lemma route_recipients_append:
  "route_recipients upd (xs @ ys) sn = route_recipients upd ys (route_recipients upd xs sn)"
proof (induction xs arbitrary: sn)
  case Nil
  then show ?case by simp
next
  case (Cons x xs)
  show ?case
    unfolding append_Cons route_recipients_step [of upd x]
    by (simp add: Cons.IH split: option.splits)
qed

text \<open>A recipient that has no route when its turn comes, nor after the refresh made then,
  gets its ack.\<close>

lemma route_recipients_unrouted:
  assumes "rs = pre @ v # post"
    and "routes (snd (route_recipients upd pre sn)) v = None"
    and "upd v (snd (route_recipients upd pre sn)) v = None"
  shows "Go_ackChan (no_route_ack v) \<in> set (trace (snd (route_recipients upd rs sn)))"
proof -
  have "route_recipients upd rs sn =
      route_recipients upd post (route_recipients upd [v] (route_recipients upd pre sn))"
    using assms(1) route_recipients_append [of upd pre "v # post" sn]
      route_recipients_append [of upd "[v]" post "route_recipients upd pre sn"]
    by simp
  moreover have "Go_ackChan (no_route_ack v)
      \<in> set (trace (snd (route_recipients upd [v] (route_recipients upd pre sn))))"
    using assms(2,3) unfolding route_recipients_step [of upd v "[]"]
    by (simp add: emit_def)
  ultimately show ?thesis
    by (simp add: route_recipients_trace)
qed

lemma await_acks_new:
  "Go_ackChan a \<in> set (trace (node_of (await_acks i arrivals rn))) \<Longrightarrow>
     Go_ackChan a \<in> set (trace (snd rn))"
  by (induction i arrivals rn rule: await_acks.induct) (auto simp: emit_def split: option.splits)

lemma send_slices_new:
  "Go_ackChan a \<in> set (trace (send_slices m sl n)) \<Longrightarrow> Go_ackChan a \<in> set (trace n)"
  by (induction m sl n rule: send_slices.induct) (auto simp: emit_def split: option.splits)

text \<open>Every ack that the loop makes up is the ack of such a recipient.\<close>

lemma route_recipients_new:
  "Go_ackChan a \<in> set (trace (snd (route_recipients upd rs sn))) \<Longrightarrow>
     Go_ackChan a \<in> set (trace (snd sn)) \<or>
     (\<exists>pre post. rs = pre @ Recipient a # post \<and> a = no_route_ack (Recipient a) \<and>
        routes (snd (route_recipients upd pre sn)) (Recipient a) = None \<and>
        upd (Recipient a) (snd (route_recipients upd pre sn)) (Recipient a) = None)"
proof (induction rs arbitrary: sn)
  case Nil
  then show ?case by simp
next
  case (Cons v vs)
  let ?there = "\<lambda>sn' vs. \<exists>pre post. vs = pre @ Recipient a # post \<and> a = no_route_ack (Recipient a) \<and>
        routes (snd (route_recipients upd pre sn')) (Recipient a) = None \<and>
        upd (Recipient a) (snd (route_recipients upd pre sn')) (Recipient a) = None"
  have later: "?there sn (v # vs)" if "route_recipients upd [v] sn = sn'" and "?there sn' vs" for sn'
  proof -
    from that(2) obtain pre post where p: "vs = pre @ Recipient a # post"
      "a = no_route_ack (Recipient a)"
      "routes (snd (route_recipients upd pre sn')) (Recipient a) = None"
      "upd (Recipient a) (snd (route_recipients upd pre sn')) (Recipient a) = None"
      by blast
    have "route_recipients upd (v # pre) sn = route_recipients upd pre sn'"
      using route_recipients_append [of upd "[v]" pre sn] that(1) by simp
    with p show ?thesis
      by (intro exI [of _ "v # pre"] exI [of _ post]) simp
  qed
  show ?case
  proof (cases "routes (snd sn) v")
    case (Some route)
    then have one: "route_recipients upd [v] sn = (append_at route v (fst sn), snd sn)"
      by (simp add: route_recipients_step del: route_recipients.simps(2))
    from Cons.prems Some
    have "Go_ackChan a \<in> set (trace (snd (route_recipients upd vs (append_at route v (fst sn), snd sn))))"
      by (simp add: route_recipients_step del: route_recipients.simps(2))
    from Cons.IH [OF this] later [OF one] show ?thesis by auto
  next
    case None
    show ?thesis
    proof (cases "upd v (snd sn) v")
      case (Some route)
      with None have one: "route_recipients upd [v] sn =
          (append_at route v (fst sn), (snd sn)\<lparr>routes := upd v (snd sn)\<rparr>)"
        by (simp add: route_recipients_step del: route_recipients.simps(2))
      from Cons.prems None Some
      have "Go_ackChan a \<in> set (trace (snd (route_recipients upd vs
          (append_at route v (fst sn), (snd sn)\<lparr>routes := upd v (snd sn)\<rparr>))))"
        by (simp add: route_recipients_step del: route_recipients.simps(2))
      from Cons.IH [OF this] later [OF one] show ?thesis by auto
    next
      case None': None
      let ?sn' = "(fst sn, emit [To_errors (Errorf (''no route to host: '' @ v)), Go_ackChan (no_route_ack v)]
                            ((snd sn)\<lparr>routes := upd v (snd sn)\<rparr>))"
      from None None' have one: "route_recipients upd [v] sn = ?sn'"
        by (simp add: route_recipients_step del: route_recipients.simps(2))
      from Cons.prems None None'
      have "Go_ackChan a \<in> set (trace (snd (route_recipients upd vs ?sn')))"
        by (simp add: route_recipients_step del: route_recipients.simps(2))
      from Cons.IH [OF this]
      consider "Go_ackChan a \<in> set (trace (snd sn))" | "a = no_route_ack v" | "?there ?sn' vs"
        by (auto simp: emit_def)
      then show ?thesis
      proof cases
        case 1
        then show ?thesis by simp
      next
        case 2
        then have "Recipient a = v" by (simp add: no_route_ack_def)
        with 2 None None' have "?there sn (v # vs)"
          by (intro exI [of _ "[]"] exI [of _ vs]) simp
        then show ?thesis by simp
      next
        case 3
        from later [OF one 3] show ?thesis by simp
      qed
    qed
  qed
qed

lemma and_then_node_of:
  "node_of (and_then (r :: (string option \<times> ack list \<times> node) outcome)
      (\<lambda>(ret, rest, n3). Returns (map_option Errorf ret, rest, n3))) = node_of r"
  by (cases r) auto

lemma setSend_unfold:
  "setSend updateRoute arrivals m n =
     and_then (await_acks (length (Recipients m)) arrivals
                 (None, send_slices m (fst (route_recipients updateRoute (Recipients m) ([], n)))
                          (snd (route_recipients updateRoute (Recipients m) ([], n)))))
       (\<lambda>(ret, rest, n3). Returns (map_option Errorf ret, rest, n3))"
  by (simp add: setSend_def acquire_def Let_def split: prod.splits)

text \<open>
  C5. For every set send with recipients \<open>r1 .. rn\<close>: each recipient that has no route
  when its turn comes, and none after the refresh of the route table made then, has an ack
  with its name and a non-nil error put on the ack stream, and every ack that the call
  puts there is the ack of such a recipient; the call takes exactly \<open>n\<close> acks from the
  stream, blocking while fewer have arrived and leaving the later ones; and it returns nil
  if and only if none of the \<open>n\<close> acks carries an error, and otherwise the error whose
  message names the recipients of the acks that do. The host is taken to receive what the
  call sends on the error stream, which it does before it starts the task of an ack.
\<close>

theorem setSend_acks:
  "(\<forall>pre v post.
      Recipients m = pre @ v # post \<and>
      routes (at_turn updateRoute pre n) v = None \<and>
      updateRoute v (at_turn updateRoute pre n) v = None \<longrightarrow>
      Err (no_route_ack v) \<noteq> None \<and>
      Go_ackChan (no_route_ack v) \<in> set (trace (node_of (setSend updateRoute arrivals m n)))) \<and>
   (\<forall>a. Go_ackChan a \<in> set (trace (node_of (setSend updateRoute arrivals m n))) \<longrightarrow>
      Go_ackChan a \<in> set (trace n) \<or>
      (\<exists>pre post. Recipients m = pre @ Recipient a # post \<and> a = no_route_ack (Recipient a) \<and>
         routes (at_turn updateRoute pre n) (Recipient a) = None \<and>
         updateRoute (Recipient a) (at_turn updateRoute pre n) (Recipient a) = None)) \<and>
   (length arrivals < length (Recipients m) \<longrightarrow> blocked (setSend updateRoute arrivals m n)) \<and>
   (length (Recipients m) \<le> length arrivals \<longrightarrow>
      (\<exists>ret n'. setSend updateRoute arrivals m n =
                   Returns (ret, drop (length (Recipients m)) arrivals, n') \<and>
         (ret = None \<longleftrightarrow> (\<forall>a\<in>set (take (length (Recipients m)) arrivals). Err a = None)) \<and>
         ret = map_option Errorf (composite (failed (take (length (Recipients m)) arrivals)))))"
proof (intro conjI allI impI)
  fix pre v post
  assume "Recipients m = pre @ v # post \<and>
      routes (at_turn updateRoute pre n) v = None \<and>
      updateRoute v (at_turn updateRoute pre n) v = None"
  then have "Go_ackChan (no_route_ack v)
          \<in> set (trace (snd (route_recipients updateRoute (Recipients m) ([], n))))"
    using route_recipients_unrouted [of "Recipients m" pre v post updateRoute "([], n)"]
    by (simp add: at_turn_def)
  then show "Go_ackChan (no_route_ack v)
        \<in> set (trace (node_of (setSend updateRoute arrivals m n)))"
    unfolding setSend_unfold and_then_node_of
    by (intro await_acks_trace) (simp add: send_slices_trace)
next
  fix pre v post
  show "Err (no_route_ack v) \<noteq> None"
    by (simp add: no_route_ack_def)
next
  fix a assume "Go_ackChan a \<in> set (trace (node_of (setSend updateRoute arrivals m n)))"
  then have "Go_ackChan a \<in> set (trace (snd (route_recipients updateRoute (Recipients m) ([], n))))"
    unfolding setSend_unfold and_then_node_of
    by (auto dest!: await_acks_new send_slices_new)
  from route_recipients_new [OF this]
  show "Go_ackChan a \<in> set (trace n) \<or>
      (\<exists>pre post. Recipients m = pre @ Recipient a # post \<and> a = no_route_ack (Recipient a) \<and>
         routes (at_turn updateRoute pre n) (Recipient a) = None \<and>
         updateRoute (Recipient a) (at_turn updateRoute pre n) (Recipient a) = None)"
    by (simp add: at_turn_def)
next
  assume "length arrivals < length (Recipients m)"
  then show "blocked (setSend updateRoute arrivals m n)"
    unfolding setSend_unfold by (intro blocked_and_then await_acks_blocks)
next
  assume le: "length (Recipients m) \<le> length arrivals"
  define n2 where "n2 = send_slices m (fst (route_recipients updateRoute (Recipients m) ([], n)))
                          (snd (route_recipients updateRoute (Recipients m) ([], n)))"
  from await_acks_returns [OF le, of "(None, n2)"]
  obtain n' where aw: "await_acks (length (Recipients m)) arrivals (None, n2) =
      Returns (composite (failed (take (length (Recipients m)) arrivals)),
               drop (length (Recipients m)) arrivals, n')"
    by (auto simp: extend_None)
  have iff: "composite (failed (take (length (Recipients m)) arrivals)) = None \<longleftrightarrow>
      (\<forall>a\<in>set (take (length (Recipients m)) arrivals). Err a = None)"
    by (simp add: composite_None failed_Nil)
  have "setSend updateRoute arrivals m n =
      Returns (map_option Errorf (composite (failed (take (length (Recipients m)) arrivals))),
               drop (length (Recipients m)) arrivals, n')"
    unfolding setSend_unfold n2_def [symmetric] aw by simp
  with iff show "\<exists>ret n'. setSend updateRoute arrivals m n =
                   Returns (ret, drop (length (Recipients m)) arrivals, n') \<and>
         (ret = None \<longleftrightarrow> (\<forall>a\<in>set (take (length (Recipients m)) arrivals). Err a = None)) \<and>
         ret = map_option Errorf (composite (failed (take (length (Recipients m)) arrivals)))"
    by simp
qed

text \<open>
  An instance: node \<open>a\<close> has \<open>b\<close> in its registry and no routes; the refresh finds
  the route to a name that the registry has and nothing else. Of the recipients \<open>z\<close> and
  \<open>b\<close>, \<open>z\<close> gets the ack made up for it and \<open>b\<close> is sent on; the call takes two
  acks, that of \<open>z\<close> and a positive one of \<open>b\<close>, and returns the error naming \<open>z\<close>.
\<close>

theorem setSend_acks_witness:
  "let updateRoute = (\<lambda>w n. if map_of (clients n) w = None then routes n else (routes n)(w \<mapsto> w));
       n0 = (NewNode ''a'' 1)\<lparr>clients := [(''b'', 1)]\<rparr>;
       m0 = \<lparr>MessageType = SET, Recipients = [''z'', ''b''], Source = ''a'',
             CurrentRoute = [''a''], ID = 1, Command = MESSAGE, Body = Body_value 0\<rparr>;
       arrivals = [\<lparr>Recipient = ''z'', Err = Some (Errorf ''no route to host: z'')\<rparr>,
                   \<lparr>Recipient = ''b'', Err = None\<rparr>,
                   \<lparr>Recipient = ''x'', Err = None\<rparr>]
   in Recipients m0 = [] @ ''z'' # [''b''] \<and>
      routes (at_turn updateRoute [] n0) ''z'' = None \<and>
      updateRoute ''z'' (at_turn updateRoute [] n0) ''z'' = None \<and>
      length (Recipients m0) \<le> length arrivals \<and>
      Go_ackChan \<lparr>Recipient = ''z'', Err = Some (Errorf ''no route to host: z'')\<rparr>
        \<in> set (trace (node_of (setSend updateRoute arrivals m0 n0))) \<and>
      Go_ackChan (no_route_ack ''b'') \<notin> set (trace (node_of (setSend updateRoute arrivals m0 n0))) \<and>
      (\<exists>n'. setSend updateRoute arrivals m0 n0 =
              Returns (Some (Errorf ''failed to send to: z''), [\<lparr>Recipient = ''x'', Err = None\<rparr>], n'))"
  using setSend_acks
    [of "\<lparr>MessageType = SET, Recipients = [''z'', ''b''], Source = ''a'',
          CurrentRoute = [''a''], ID = 1, Command = MESSAGE, Body = Body_value 0\<rparr>"
        "\<lambda>w n. if map_of (clients n) w = None then routes n else (routes n)(w \<mapsto> w)"
        "(NewNode ''a'' 1)\<lparr>clients := [(''b'', 1)]\<rparr>"
        "[\<lparr>Recipient = ''z'', Err = Some (Errorf ''no route to host: z'')\<rparr>,
          \<lparr>Recipient = ''b'', Err = None\<rparr>,
          \<lparr>Recipient = ''x'', Err = None\<rparr>]"]
  by (simp add: NewNode_def failed_def no_route_ack_def at_turn_def setSend_unfold emit_def
        Let_def)

section \<open>The handshake\<close>

text \<open>The dialing side refuses its own name and a name that the registry has.\<close>

lemma dial_rejects_self:
  "Source hs = name n \<Longrightarrow>
     dial visit (Inr c) (Inr hs) encoded solicited n =
       Returns (Some (Errorf ''connecting to myself is not allowed''), emit [Close c] n)"
  by (simp add: dial_def)

lemma dial_rejects_duplicate:
  "Source hs \<noteq> name n \<Longrightarrow> map_of (clients n) (Source hs) = Some c0 \<Longrightarrow>
     dial visit (Inr c) (Inr hs) encoded solicited n =
       Returns (Some (Errorf ''already connected''), emit [Close c] n)"
  by (simp add: dial_def)

text \<open>
  C6. Self-connection is rejected at handshake on either side. The accepting side does not
  do so: node \<open>a\<close>, on a reply whose source is \<open>a\<close>, reports no error and stores the
  session under its own name.
\<close>

theorem handleConnection_installs_self:
  "handleConnection 7 None
     (Inr \<lparr>MessageType = SET, Recipients = [], Source = ''a'', CurrentRoute = [''a''],
           ID = 0, Command = ACK, Body = Body_nil\<rparr>)
     (NewNode ''a'' 1)
   = Returns ((NewNode ''a'' 1)
       \<lparr>clients := [(''a'', 7)],
        trace := trace (NewNode ''a'' 1) @
          [Encode 7 \<lparr>MessageType = SET, Recipients = [], Source = ''a'', CurrentRoute = [''a''],
                     ID = 0, Command = HANDSHAKE_SOLICITED, Body = Body_node_mesh Map.empty\<rparr>,
           Go_receiveHandler ''a'']\<rparr>)"
  by (simp add: handleConnection_def acquire_def Let_def NewNode_def emit_def)

text \<open>
  C7. A handshake whose peer name is already in the registry is rejected on either side,
  and the session under that name survives. The accepting side does not do so: with
  session 1 stored under \<open>b\<close>, a reply from \<open>b\<close> on connection 2 is reported as no
  error and session 2 takes the place of session 1.
\<close>

theorem handleConnection_replaces_session:
  "handleConnection 2 None
     (Inr \<lparr>MessageType = SET, Recipients = [], Source = ''b'', CurrentRoute = [''b''],
           ID = 0, Command = ACK, Body = Body_nil\<rparr>)
     ((NewNode ''a'' 2)\<lparr>clients := [(''b'', 1)]\<rparr>)
   = Returns ((NewNode ''a'' 2)
       \<lparr>clients := [(''b'', 2)],
        trace := trace (NewNode ''a'' 2) @
          [Encode 2 \<lparr>MessageType = SET, Recipients = [], Source = ''a'', CurrentRoute = [''a''],
                     ID = 0, Command = HANDSHAKE_SOLICITED, Body = Body_node_mesh Map.empty\<rparr>,
           Go_receiveHandler ''b'']\<rparr>)"
  by (simp add: handleConnection_def acquire_def Let_def NewNode_def emit_def)

section \<open>Empty rows\<close>

text \<open>A \<^verbatim>\<open>union\<close> that returns has merged and nothing else.\<close>

lemma union_Returns_mesh:
  assumes "union visit m n = Returns n1"
  shows "mesh n1 k =
     (if k \<in> fst ` set m then Some (sorted_list_of_set (set (mesh_at n k) \<union> given m k))
      else mesh n k)"
  using union_Returns [OF assms] by (simp add: mesh_union_merge)

text \<open>
  C8, as the code has it. After an intersection that returns, every key of its input is
  settled: its row is not empty, and a key that is absent is absent from both sequence
  tables too. A mesh without empty rows has none where an intersection ends, and none
  where a union ends if no row of the fragment is empty. A union that returns removes no
  key: every key of the mesh and every key of the fragment is a key of the mesh after it,
  and a key of the fragment to which the fragment gives no name, and whose row was absent
  or empty, has an empty row after it.
\<close>

theorem empty_rows_removed:
  "(intersect m n = Returns n' \<longrightarrow> (\<forall>k\<in>fst ` set m. settled n' k)) \<and>
   (no_empty_row n \<longrightarrow> no_empty_row (state_of (intersect m n))) \<and>
   (no_empty_row n \<longrightarrow> (\<forall>e\<in>set m. snd e \<noteq> []) \<longrightarrow>
      no_empty_row (state_of (union visit m n))) \<and>
   (union visit m n = Returns n1 \<longrightarrow>
      (\<forall>k. mesh n k \<noteq> None \<or> k \<in> fst ` set m \<longrightarrow> mesh n1 k \<noteq> None) \<and>
      (\<forall>k\<in>fst ` set m. given m k = {} \<and> mesh_at n k = [] \<longrightarrow> mesh n1 k = Some []))"
proof (intro conjI impI ballI allI)
  fix k assume "intersect m n = Returns n'" "k \<in> fst ` set m"
  then show "settled n' k"
    by (simp add: intersect_def intersect_locked_def intersect_loop_settled)
next
  assume "no_empty_row n"
  then show "no_empty_row (state_of (intersect m n))"
    by (simp add: no_empty_row_def intersect_def intersect_locked_def
          intersect_loop_keeps [of no_empty, OF no_empty_cut])
next
  assume "no_empty_row n" "\<forall>e\<in>set m. snd e \<noteq> []"
  then have "no_empty (mesh (union_merge m n))"
    by (intro no_empty_union_merge) (simp_all add: no_empty_row_def)
  then show "no_empty_row (state_of (union visit m n))"
    by (simp add: no_empty_row_def union_mesh intersect_locked_def
          intersect_loop_keeps [of no_empty, OF no_empty_cut])
next
  fix k assume "union visit m n = Returns n1" "mesh n k \<noteq> None \<or> k \<in> fst ` set m"
  then show "mesh n1 k \<noteq> None"
    by (auto simp: union_Returns_mesh)
next
  fix k assume "union visit m n = Returns n1" "k \<in> fst ` set m"
    "given m k = {} \<and> mesh_at n k = []"
  then show "mesh n1 k = Some []"
    by (simp add: union_Returns_mesh)
qed

theorem empty_rows_removed_witness:
  "let n0 = (NewNode ''a'' 1)\<lparr>mesh := [''a'' \<mapsto> [''b''], ''b'' \<mapsto> [''a'']], clients := [(''b'', 1)]\<rparr>;
       n' = (NewNode ''a'' 1)\<lparr>mesh := [''b'' \<mapsto> [''a'']], clients := [(''b'', 1)],
                                setSequences := Map.empty, broadcastSequences := Map.empty\<rparr>;
       n1 = (NewNode ''a'' 1)\<lparr>mesh := [''a'' \<mapsto> [''b''], ''b'' \<mapsto> [''a'', ''c'']],
                                clients := [(''b'', 1)]\<rparr>;
       n2 = (NewNode ''a'' 1)\<lparr>mesh := [''a'' \<mapsto> [''b''], ''b'' \<mapsto> [''a''], ''d'' \<mapsto> []],
                                clients := [(''b'', 1)]\<rparr>
   in intersect [(''a'', [''b'']), (''b'', [''c''])] n0 = Returns n' \<and>
      settled n' ''a'' \<and> settled n' ''b'' \<and>
      no_empty_row n0 \<and>
      no_empty_row (state_of (intersect [(''a'', [''b'']), (''b'', [''c''])] n0)) \<and>
      union rev [(''a'', [''b'']), (''b'', [''c''])] n0 = Returns n1 \<and>
      no_empty_row (state_of (union rev [(''a'', [''b'']), (''b'', [''c''])] n0)) \<and>
      union rev [(''d'', [])] n0 = Returns n2 \<and> mesh n2 ''d'' = Some []"
proof -
  let ?n0 = "(NewNode ''a'' 1)\<lparr>mesh := [''a'' \<mapsto> [''b''], ''b'' \<mapsto> [''a'']], clients := [(''b'', 1)]\<rparr>"
  let ?n' = "(NewNode ''a'' 1)\<lparr>mesh := [''b'' \<mapsto> [''a'']], clients := [(''b'', 1)],
                                setSequences := Map.empty, broadcastSequences := Map.empty\<rparr>"
  let ?n1 = "(NewNode ''a'' 1)\<lparr>mesh := [''a'' \<mapsto> [''b''], ''b'' \<mapsto> [''a'', ''c'']],
                                clients := [(''b'', 1)]\<rparr>"
  let ?n2 = "(NewNode ''a'' 1)\<lparr>mesh := [''a'' \<mapsto> [''b''], ''b'' \<mapsto> [''a''], ''d'' \<mapsto> []],
                                clients := [(''b'', 1)]\<rparr>"
  have ret: "intersect [(''a'', [''b'']), (''b'', [''c''])] ?n0 = Returns ?n'"
    by (simp add: intersect_def intersect_locked_def intersect_key_def Let_def mesh_at_def
          NewNode_def fun_upd_twist)
  have ne: "no_empty_row ?n0"
    by (simp add: no_empty_row_def no_empty_def NewNode_def)
  have un: "union rev [(''a'', [''b'']), (''b'', [''c''])] ?n0 = Returns ?n1"
    by (simp add: union_unfold Let_def union_key_def NewNode_def intersection_mesh_def
          mesh_at_def dedup_def dedup_step_def conflict_step_def fun_upd_twist)
  have un2: "union rev [(''d'', [])] ?n0 = Returns ?n2"
    by (simp add: union_unfold Let_def union_key_def NewNode_def intersection_mesh_def
          mesh_at_def dedup_def dedup_step_def conflict_step_def)
  show ?thesis
    unfolding Let_def
    using ret ne un un2
      empty_rows_removed [of "[(''a'', [''b'']), (''b'', [''c''])]" ?n0 ?n' rev ?n1]
      empty_rows_removed [of "[(''d'', [])]" ?n0 ?n' rev ?n2]
    by (simp add: mesh_at_def)
qed

text \<open>
  C8 as stated fails: a key given with an empty row and absent from the mesh is stored
  with an empty row by a \<^verbatim>\<open>union\<close> that returns.
\<close>

theorem union_keeps_given_empty_row:
  "union (\<lambda>im. im) [(''b'', [])] (NewNode ''a'' 1) =
     Returns ((NewNode ''a'' 1)\<lparr>mesh := [''b'' \<mapsto> []]\<rparr>)"
  by (simp add: union_unfold Let_def union_key_def NewNode_def intersection_mesh_def mesh_at_def
        dedup_def)

section \<open>Keys absent from the mesh\<close>

text \<open>
  Where \<^verbatim>\<open>intersect\<close> returns, a key of its input that the mesh lacked is still
  absent, and both sequence tables lack it; with that key alone as input the call
  returns, and nothing else of the node changes.
\<close>

lemma intersect_loop_absent:
  "mesh (snd hn) k = None \<Longrightarrow> mesh (state_of (intersect_loop m hn)) k = None"
  by (rule intersect_loop_keeps [of "\<lambda>M. M k = None"]) (simp_all add: cut_absent)

lemma intersect_absent_key:
  assumes "intersect m n = Returns n'" and "k \<in> fst ` set m" and "mesh n k = None"
  shows "mesh n' k = None \<and> setSequences n' k = None \<and> broadcastSequences n' k = None"
proof -
  have "mesh (state_of (intersect m n)) k = None"
    using assms(3) intersect_loop_absent [of "({meshLock}, n)" k m]
    by (simp add: intersect_def intersect_locked_def)
  moreover have "settled n' k"
    using assms(1,2) by (simp add: intersect_def intersect_locked_def intersect_loop_settled)
  ultimately show ?thesis
    using assms(1) by (simp add: settled_def)
qed

lemma intersect_absent_single:
  "mesh n k = None \<Longrightarrow>
     intersect [(k, v)] n =
       Returns (n\<lparr>setSequences := (setSequences n)(k := None),
                 broadcastSequences := (broadcastSequences n)(k := None)\<rparr>)"
  by (simp add: intersect_def intersect_locked_def intersect_key_def Let_def mesh_at_def
        fun_upd_idem)

text \<open>
  C9. For every key of the input of \<^verbatim>\<open>intersect\<close> that is absent from the mesh, the
  operation deletes the key's entries from both sequence tables. With two such keys the
  call blocks at the second one, whichever it is, before that key's entries are deleted:
  here the entries of \<open>b\<close> and \<open>c\<close> are 5 and 3, and the key visited second keeps its
  entry in either order.
\<close>

theorem intersect_blocks_at_second_absent_key:
  "blocked (intersect [(''b'', [''c'']), (''c'', [''b''])]
       ((NewNode ''a'' 0)\<lparr>setSequences := [''a'' \<mapsto> 1, ''b'' \<mapsto> 5, ''c'' \<mapsto> 3]\<rparr>)) \<and>
   setSequences (state_of (intersect [(''b'', [''c'']), (''c'', [''b''])]
       ((NewNode ''a'' 0)\<lparr>setSequences := [''a'' \<mapsto> 1, ''b'' \<mapsto> 5, ''c'' \<mapsto> 3]\<rparr>))) ''c'' = Some 3 \<and>
   blocked (intersect [(''c'', [''b'']), (''b'', [''c''])]
       ((NewNode ''a'' 0)\<lparr>setSequences := [''a'' \<mapsto> 1, ''b'' \<mapsto> 5, ''c'' \<mapsto> 3]\<rparr>)) \<and>
   setSequences (state_of (intersect [(''c'', [''b'']), (''b'', [''c''])]
       ((NewNode ''a'' 0)\<lparr>setSequences := [''a'' \<mapsto> 1, ''b'' \<mapsto> 5, ''c'' \<mapsto> 3]\<rparr>))) ''b'' = Some 5"
  by (simp add: intersect_def intersect_locked_def intersect_key_def acquire_def Let_def
        mesh_at_def NewNode_def)

section \<open>Hangup\<close>

text \<open>
  What holds of \<^verbatim>\<open>Hangup\<close>: for a name that the registry lacks it returns the error and
  leaves the node as it was, registry, mesh, routes and sequence tables included; for a
  name in the registry whose reader is in its loop it returns nil, and the reader has the
  signal; and it returns nothing but these.
\<close>

lemma Hangup_absent:
  "map_of (clients n) p = None \<Longrightarrow> Hangup p n = Returns (Some (Errorf ''no such client''), n)"
  by (simp add: Hangup_def)

lemma Hangup_present:
  "map_of (clients n) p = Some c \<Longrightarrow> c \<notin> set (readers_gone n) \<Longrightarrow>
     Hangup p n = Returns (None, emit [To_hangup c] (n\<lparr>readers_gone := c # readers_gone n\<rparr>))"
  by (simp add: Hangup_def)

lemma Hangup_blocks:
  "map_of (clients n) p = Some c \<Longrightarrow> c \<in> set (readers_gone n) \<Longrightarrow> Hangup p n = Deadlock n"
  by (simp add: Hangup_def)

lemma Hangup_Returns:
  "Hangup p n = Returns (e, n') \<Longrightarrow>
     (map_of (clients n) p = None \<longrightarrow> e \<noteq> None \<and> n' = n) \<and>
     (map_of (clients n) p \<noteq> None \<longrightarrow> e = None \<and>
        mesh n' = mesh n \<and> routes n' = routes n \<and> clients n' = clients n \<and>
        setSequences n' = setSequences n \<and> broadcastSequences n' = broadcastSequences n)"
  by (auto simp: Hangup_def emit_def split: option.splits if_splits)

text \<open>
  C10. For every peer name that the registry lacks, \<^verbatim>\<open>Hangup\<close> returns a non-nil error
  and changes nothing; for every peer name in the registry it returns nil. The second half
  fails: node \<open>a\<close> has session 1 under \<open>b\<close>; a first \<^verbatim>\<open>Hangup\<close> of \<open>b\<close> returns nil,
  and a second one, made before the reader has deleted \<open>b\<close> from the registry, finds
  \<open>b\<close> there, sends on the hangup channel that nothing reads any more, and blocks with
  \<^verbatim>\<open>clientLock\<close> held, so that the reader never deletes \<open>b\<close> either.
\<close>

theorem Hangup_twice_blocks:
  "Hangup ''b'' ((NewNode ''a'' 1)\<lparr>clients := [(''b'', 1)]\<rparr>) =
     Returns (None, (NewNode ''a'' 1)
        \<lparr>clients := [(''b'', 1)], readers_gone := [1],
         trace := trace (NewNode ''a'' 1) @ [To_hangup 1]\<rparr>) \<and>
   map_of (clients ((NewNode ''a'' 1)
        \<lparr>clients := [(''b'', 1)], readers_gone := [1],
         trace := trace (NewNode ''a'' 1) @ [To_hangup 1]\<rparr>)) ''b'' = Some 1 \<and>
   Hangup ''b'' ((NewNode ''a'' 1)
        \<lparr>clients := [(''b'', 1)], readers_gone := [1],
         trace := trace (NewNode ''a'' 1) @ [To_hangup 1]\<rparr>) =
     Deadlock ((NewNode ''a'' 1)
        \<lparr>clients := [(''b'', 1)], readers_gone := [1],
         trace := trace (NewNode ''a'' 1) @ [To_hangup 1]\<rparr>) \<and>
   blocked (and_then (Hangup ''b'' ((NewNode ''a'' 1)\<lparr>clients := [(''b'', 1)]\<rparr>))
              (\<lambda>r. Hangup ''b'' (snd r)))"
  by (simp add: Hangup_def acquire_def NewNode_def emit_def)

end
